theory Spec2Isabelle
  imports Main
begin

section \<open>JavaScript objects, errors and promises\<close>

text \<open>
  The service of \<^verbatim>\<open>src/app/lazy-loader.service.ts\<close> keeps three plain objects
  that it uses as dictionaries: \<^verbatim>\<open>cache\<close>, \<^verbatim>\<open>loadedLibraries\<close>
  and, per module, the local \<^verbatim>\<open>compFactory\<close>. A read \<^verbatim>\<open>obj[key]\<close> of a plain
  object finds an own property, or a member inherited from \<^verbatim>\<open>Object.prototype\<close>, or
  \<^verbatim>\<open>undefined\<close>. The three outcomes are kept apart, since the code tests the result
  for truthiness and dereferences it. (The keys of \<^verbatim>\<open>cache\<close> contain \<^verbatim>\<open>#\<close> and
  \<^verbatim>\<open>loadedLibraries\<close> is never written under the name of an inherited member, so
  the prototype of these two stays \<^verbatim>\<open>Object.prototype\<close>; \<^verbatim>\<open>compFactory\<close>, whose keys
  the loaded module chooses, has a lookup of its own below.)
\<close>

datatype js_error = TypeError | HostError

datatype 'a promise = Pending | Resolved 'a | Rejected js_error

datatype 'a js_lookup = Undefined | Inherited | Own 'a

definition object_prototype_keys :: "string list" where
  "object_prototype_keys =
     [''constructor'', ''__defineGetter__'', ''__defineSetter__'', ''hasOwnProperty'',
      ''__lookupGetter__'', ''__lookupSetter__'', ''isPrototypeOf'',
      ''propertyIsEnumerable'', ''toString'', ''valueOf'', ''__proto__'',
      ''toLocaleString'']"

definition js_get :: "(string \<rightharpoonup> 'a) \<Rightarrow> string \<Rightarrow> 'a js_lookup" where
  "js_get obj key =
     (case obj key of
        Some v \<Rightarrow> Own v
      | None \<Rightarrow> if key \<in> set object_prototype_keys then Inherited else Undefined)"

text \<open>
  Every own value stored by the service is an object and every member of
  \<^verbatim>\<open>Object.prototype\<close> is a function or an object, so only \<^verbatim>\<open>undefined\<close> is falsy.
\<close>

fun truthy :: "'a js_lookup \<Rightarrow> bool" where
  "truthy Undefined = False"
| "truthy Inherited = True"
| "truthy (Own v) = True"

section \<open>The host runtime, as far as the service calls into it\<close>

type_synonym injector = nat

text \<open>
  Host objects the service only passes on. Three of them can be reached by a property
  read of the service and are then asked for their own property \<^verbatim>\<open>factory\<close>: a
  component class, a factory object, and whatever that property holds. \<open>None\<close> is
  \<^verbatim>\<open>undefined\<close>; \<open>has_create\<close> says whether the value has a method \<^verbatim>\<open>create\<close>.
  (The factory objects of the host's resolver, \<^verbatim>\<open>ComponentFactoryBoundToModule\<close> in the
  source's comment, keep the factory they wrap in a property of that name.)
\<close>

record host_value =
  value_id :: nat
  has_create :: bool

record component_type =
  class_id :: nat
  static_factory :: "host_value option"

record component_factory =
  factory_id :: nat
  inner_factory :: "host_value option"

text \<open>
  The language level the TypeScript of the service was compiled to, which the sources
  do not fix. It decides what the object literal \<^verbatim>\<open>{ [key]: value }\<close> of the callback does
  for the key \<^verbatim>\<open>__proto__\<close>: compiled to ES5 the literal is \<^verbatim>\<open>(_a = {}, _a[key] = value, _a)\<close>,
  an assignment, which for that key calls the setter of \<^verbatim>\<open>Object.prototype\<close>; from
  ES2015 on a computed key always defines an own property.
\<close>

datatype emit = ES5 | ES2015

text \<open>
  \<^verbatim>\<open>moduleFactory.moduleType\<close> is the module class; its static field
  \<^verbatim>\<open>creatableComponents\<close> is an object from component names to component classes
  (an association list, in the order \<^verbatim>\<open>Object.keys\<close> enumerates it), or is missing.
\<close>

record module_type =
  type_id :: nat
  creatableComponents :: "(string \<times> component_type) list option"

text \<open>
  \<^verbatim>\<open>moduleRef.componentFactoryResolver.resolveComponentFactory(t)\<close> returns the factory
  bound to the module for the component classes the module knows and throws for any other.
\<close>

record module_ref =
  ref_id :: nat
  componentFactoryResolver :: "(component_type \<times> component_factory) list"

definition resolveComponentFactory :: "module_ref \<Rightarrow> component_type \<Rightarrow> component_factory option" where
  "resolveComponentFactory r t = map_of (componentFactoryResolver r) t"

text \<open>
  \<^verbatim>\<open>moduleFactory.create(inj)\<close> returns a module instance or throws (\<open>None\<close>).
  \<open>factory_emit\<close> is not a property of the factory object: it is the language level of
  the callback that receives the factory, passed along with it, so that whatever is proved
  of \<^verbatim>\<open>load\<close> for every module factory holds for both levels.
\<close>

record module_factory =
  factory_moduleType :: module_type
  factory_create :: "module_ref option"
  factory_emit :: emit

text \<open>
  What one call \<^verbatim>\<open>this.loader.load(moduleURL)\<close> of the host's module loader does: it
  throws synchronously (or returns something that has no \<^verbatim>\<open>then\<close>), or returns a
  promise that rejects, never settles, or is fulfilled with a module factory.
\<close>

datatype host_load = LoadThrows | LoadRejects | LoadNeverSettles | LoadResolves module_factory



section \<open>The service's data\<close>

record comp_entry =
  comp_type :: component_type
  comp_factory :: component_factory

text \<open>
  The object \<^verbatim>\<open>compFactory\<close>: its own properties, and its prototype when that is no
  longer \<^verbatim>\<open>Object.prototype\<close> (\<open>None\<close>) but one of the entries.
\<close>

record comp_object =
  own :: "string \<rightharpoonup> comp_entry"
  prototype :: "comp_entry option"

text \<open>
  The object \<^verbatim>\<open>moduleBundle\<close> that \<^verbatim>\<open>load\<close> hands out. Its methods
  \<^verbatim>\<open>create\<close> and \<^verbatim>\<open>destroy\<close> are the functions \<open>create\<close> and \<open>destroy\<close> below;
  \<open>compFactory\<close> is the local constant that the closure \<^verbatim>\<open>create\<close> captured,
  which is the object first stored in the property \<open>factory\<close>. The property
  \<open>unloaded\<close> does not exist (\<open>None\<close>) until \<^verbatim>\<open>unload\<close> sets it, and
  \<open>factory = None\<close> is \<^verbatim>\<open>undefined\<close>.
\<close>

record module_bundle =
  name :: string
  url :: string
  factory :: "comp_object option"
  moduleRef :: module_ref
  moduleType :: module_type
  unloaded :: "bool option"
  compFactory :: comp_object

record script =
  script_type :: string
  src :: string

text \<open>
  Objects have identity: a Module Handle is an address into \<open>heap\<close>, a script element
  an address into \<open>scripts\<close>; \<open>body\<close> lists the elements appended to
  \<^verbatim>\<open>document.body\<close>, \<open>console\<close> the calls of \<^verbatim>\<open>console.info\<close>, and
  \<open>destroyed\<close> the module instances whose \<^verbatim>\<open>destroy()\<close> was called.
\<close>

record loader_state =
  heap :: "module_bundle list"
  cache :: "string \<rightharpoonup> nat"
  loader_inj :: injector
  loadedLibraries :: "string \<rightharpoonup> nat"
  scripts :: "script list"
  body :: "nat list"
  console :: "(string \<times> string) list"
  destroyed :: "module_ref list"

definition new_service :: "injector \<Rightarrow> loader_state" where
  "new_service i =
     \<lparr>heap = [], cache = Map.empty, loader_inj = i, loadedLibraries = Map.empty,
      scripts = [], body = [], console = [], destroyed = []\<rparr>"

section \<open>load\<close>

definition moduleURL_of :: "string \<Rightarrow> string \<Rightarrow> string" where
  "moduleURL_of moduleName moduleFilename = moduleFilename @ ''#'' @ moduleName"

text \<open>
  The object \<^verbatim>\<open>{ [key]: e }\<close>: its own enumerable properties in order, and its prototype
  (\<open>None\<close> is \<^verbatim>\<open>Object.prototype\<close>). Compiled to ES5 the key \<^verbatim>\<open>__proto__\<close> is assigned,
  which makes \<open>e\<close> the prototype and leaves the object without own property.
\<close>

record singleton =
  lit_own :: "(string \<times> comp_entry) list"
  lit_prototype :: "comp_entry option"

definition computed_property :: "emit \<Rightarrow> string \<Rightarrow> comp_entry \<Rightarrow> singleton" where
  "computed_property em key e =
     (case em of
        ES2015 \<Rightarrow> \<lparr>lit_own = [(key, e)], lit_prototype = None\<rparr>
      | ES5 \<Rightarrow>
          if key = ''__proto__'' then \<lparr>lit_own = [], lit_prototype = Some e\<rparr>
          else \<lparr>lit_own = [(key, e)], lit_prototype = None\<rparr>)"

text \<open>
  \<^verbatim>\<open>Object.keys(entryComponents).map(key => ({[key]: {type: entryComponents[key],
  factory: resolveComponentFactory(entryComponents[key])}}))\<close>: one singleton per key, in
  order; the first key whose class the resolver does not know throws.
\<close>

fun compFactoryArray ::
  "module_ref \<Rightarrow> emit \<Rightarrow> (string \<rightharpoonup> component_type) \<Rightarrow> string list \<Rightarrow> js_error + singleton list" where
  "compFactoryArray r em entryComponents [] = Inr []"
| "compFactoryArray r em entryComponents (key # keys) =
     (case entryComponents key of
        None \<Rightarrow> Inl HostError
      | Some t \<Rightarrow>
          (case resolveComponentFactory r t of
             None \<Rightarrow> Inl HostError
           | Some f \<Rightarrow>
               (case compFactoryArray r em entryComponents keys of
                  Inl e \<Rightarrow> Inl e
                | Inr rest \<Rightarrow>
                    Inr (computed_property em key \<lparr>comp_type = t, comp_factory = f\<rparr> # rest))))"

text \<open>
  \<^verbatim>\<open>Object.assign({}, ...compFactoryArray)\<close> assigns every own enumerable property of
  every source to the new object, later ones over earlier ones. Assigning the key
  \<^verbatim>\<open>__proto__\<close> to an object without such an own property calls the setter inherited from
  \<^verbatim>\<open>Object.prototype\<close>: the value, an object, becomes the prototype, and no own property
  is made.
\<close>

definition js_set :: "comp_object \<Rightarrow> string \<times> comp_entry \<Rightarrow> comp_object" where
  "js_set obj p =
     (if fst p = ''__proto__'' then obj\<lparr>prototype := Some (snd p)\<rparr>
      else obj\<lparr>own := (own obj)(fst p \<mapsto> snd p)\<rparr>)"

definition Object_assign :: "singleton list \<Rightarrow> comp_object" where
  "Object_assign sources =
     foldl (\<lambda>obj source. foldl js_set obj (lit_own source))
       \<lparr>own = Map.empty, prototype = None\<rparr> sources"

datatype load_value = VUndefined | VHandle nat | VInherited

text \<open>
  The callback given to \<^verbatim>\<open>then\<close>, run when the host's promise is fulfilled with
  \<open>moduleFactory\<close>. \<open>Inr v\<close>: the callback called \<^verbatim>\<open>rs(v)\<close>. \<open>Inl e\<close>: the callback
  threw \<open>e\<close> before calling \<^verbatim>\<open>rs\<close>; this rejects the promise that \<^verbatim>\<open>then\<close>
  returned, which nobody holds.
\<close>

definition load_then ::
  "loader_state \<Rightarrow> string \<Rightarrow> string \<Rightarrow> module_factory \<Rightarrow> loader_state \<times> (js_error + load_value)" where
  "load_then s moduleName moduleFilename moduleFactory =
     (let moduleURL = moduleURL_of moduleName moduleFilename in
      case js_get (cache s) moduleURL of
        Own h \<Rightarrow> (s, Inr (VHandle h))
      | Inherited \<Rightarrow> (s, Inr VInherited)
      | Undefined \<Rightarrow>
          (let s1 = s\<lparr>console := console s @ [(''Loading Module '', moduleURL)]\<rparr> in
           case factory_create moduleFactory of
             None \<Rightarrow> (s1, Inl HostError)
           | Some mRef \<Rightarrow>
               (case creatableComponents (factory_moduleType moduleFactory) of
                  None \<Rightarrow> (s1, Inl TypeError)
                | Some entryComponents \<Rightarrow>
                    (case compFactoryArray mRef (factory_emit moduleFactory)
                            (map_of entryComponents) (map fst entryComponents) of
                       Inl e \<Rightarrow> (s1, Inl e)
                     | Inr arr \<Rightarrow>
                         (let cf = Object_assign arr;
                              moduleBundle =
                                \<lparr>name = moduleName, url = moduleURL, factory = Some cf,
                                 moduleRef = mRef,
                                 moduleType = factory_moduleType moduleFactory,
                                 unloaded = None, compFactory = cf\<rparr>;
                              h = length (heap s1)
                          in (s1\<lparr>heap := heap s1 @ [moduleBundle],
                                 cache := (cache s1)(moduleURL \<mapsto> h)\<rparr>,
                              Inr (VHandle h)))))))"

text \<open>
  \<^verbatim>\<open>load\<close>, for the call of the host loader it makes and the way that call ends. Only
  the \<^verbatim>\<open>try\<close> block's synchronous failure reaches \<^verbatim>\<open>catch\<close>; \<^verbatim>\<open>then\<close> is given no
  rejection handler, and \<^verbatim>\<open>rj\<close> is never called.
\<close>

definition load ::
  "loader_state \<Rightarrow> string \<Rightarrow> string \<Rightarrow> host_load \<Rightarrow> loader_state \<times> load_value promise" where
  "load s moduleName moduleFilename host =
     (case host of
        LoadThrows \<Rightarrow> (s, Resolved VUndefined)
      | LoadRejects \<Rightarrow> (s, Pending)
      | LoadNeverSettles \<Rightarrow> (s, Pending)
      | LoadResolves moduleFactory \<Rightarrow>
          (case load_then s moduleName moduleFilename moduleFactory of
             (s', Inr v) \<Rightarrow> (s', Resolved v)
           | (s', Inl e) \<Rightarrow> (s', Pending)))"

section \<open>The handle's create and destroy, and unload\<close>






text \<open>
  \<^verbatim>\<open>unload\<close> is an \<^verbatim>\<open>async\<close> function: its promise is fulfilled when the body
  returns and rejected when the body throws, which it does only when the argument is
  not an object.
\<close>

definition unload :: "loader_state \<Rightarrow> nat \<Rightarrow> loader_state \<times> unit promise" where
  "unload s h =
     (if h < length (heap s) then
        (let moduleBundle = heap s ! h in
         if truthy (js_get (cache s) (url moduleBundle)) then
           (s\<lparr>heap := (heap s)[h := moduleBundle
                   \<lparr>name := name moduleBundle @ ''-unloaded'',
                    unloaded := Some True,
                    factory := None\<rparr>],
               destroyed := destroyed s @ [moduleRef moduleBundle],
               cache := (cache s)(url moduleBundle := None)\<rparr>,
            Resolved ())
         else (s, Resolved ()))
      else (s, Rejected TypeError))"

text \<open>\<^verbatim>\<open>destroy: function() { ths.unload( this ); }\<close>\<close>

definition destroy :: "loader_state \<Rightarrow> nat \<Rightarrow> loader_state" where
  "destroy s h = fst (unload s h)"

section \<open>loadJs\<close>

text \<open>
  \<^verbatim>\<open>loadJs\<close> always returns the promise it constructs. The executor either returns at
  once without calling \<^verbatim>\<open>rs\<close> (the value it returns is dropped, so the promise can
  never settle: \<open>Hangs\<close>), or appends a new script element whose \<^verbatim>\<open>onload\<close>
  handler will settle the promise (\<open>OnLoad\<close> of that element).
\<close>

datatype script_promise = Hangs | OnLoad nat

definition loadJs :: "loader_state \<Rightarrow> string \<Rightarrow> loader_state \<times> script_promise" where
  "loadJs s u =
     (if truthy (js_get (loadedLibraries s) u) then (s, Hangs)
      else
        (let script = length (scripts s) in
         (s\<lparr>scripts := scripts s @ [\<lparr>script_type = ''text/javascript'', src = u\<rparr>],
            body := body s @ [script]\<rparr>,
          OnLoad script)))"

text \<open>
  The browser fires the load event of script element \<open>a\<close>: the handler stores the
  element under the URL it was created for and resolves the promise with the element.
\<close>

definition script_onload :: "loader_state \<Rightarrow> nat \<Rightarrow> loader_state \<times> nat promise" where
  "script_onload s a =
     (if a < length (scripts s) then
        (s\<lparr>loadedLibraries := (loadedLibraries s)(src (scripts s ! a) \<mapsto> a)\<rparr>, Resolved a)
      else (s, Pending))"

section \<open>Sequences of calls, and what the claims speak of\<close>

text \<open>
  The calls a client can make, and the load event the browser can fire, one at a time
  (each call here runs to its end before the next begins). \<open>reachable\<close> are the states
  of a service that started fresh.
\<close>

datatype operation =
    Load string string host_load
  | Unload nat
  | Destroy nat
  | LoadJs string
  | ScriptOnload nat

fun step :: "loader_state \<Rightarrow> operation \<Rightarrow> loader_state" where
  "step s (Load moduleName moduleFilename host) = fst (load s moduleName moduleFilename host)"
| "step s (Unload h) = fst (unload s h)"
| "step s (Destroy h) = destroy s h"
| "step s (LoadJs u) = fst (loadJs s u)"
| "step s (ScriptOnload a) = fst (script_onload s a)"

definition run :: "loader_state \<Rightarrow> operation list \<Rightarrow> loader_state" where
  "run s ops = foldl step s ops"

inductive reachable :: "loader_state \<Rightarrow> bool" where
  fresh: "reachable (new_service i)"
| call: "reachable s \<Longrightarrow> reachable (step s op)"

fun loads_key :: "string \<Rightarrow> operation \<Rightarrow> bool" where
  "loads_key k (Load moduleName moduleFilename host) = (moduleURL_of moduleName moduleFilename = k)"
| "loads_key k (Unload h) = False"
| "loads_key k (Destroy h) = False"
| "loads_key k (LoadJs u) = False"
| "loads_key k (ScriptOnload a) = False"

text \<open>
  The host calls of the \<^verbatim>\<open>then\<close> callback all return: \<^verbatim>\<open>moduleFactory.create\<close>
  gives a module instance, the module class has \<^verbatim>\<open>creatableComponents\<close>, and the
  resolver knows every class listed there.
\<close>

definition instantiates :: "module_factory \<Rightarrow> bool" where
  "instantiates mf =
     (case factory_create mf of
        None \<Rightarrow> False
      | Some r \<Rightarrow>
          (case creatableComponents (factory_moduleType mf) of
             None \<Rightarrow> False
           | Some cs \<Rightarrow> list_all (\<lambda>(k, t). resolveComponentFactory r t \<noteq> None) cs))"

text \<open>
  A call of \<^verbatim>\<open>load\<close> fails when the host loader does not deliver a module factory, or
  the \<^verbatim>\<open>then\<close> callback throws.
\<close>

definition load_fails :: "loader_state \<Rightarrow> string \<Rightarrow> string \<Rightarrow> host_load \<Rightarrow> bool" where
  "load_fails s moduleName moduleFilename host =
     (case host of
        LoadResolves moduleFactory \<Rightarrow> isl (snd (load_then s moduleName moduleFilename moduleFactory))
      | _ \<Rightarrow> True)"

text \<open>The script elements under \<^verbatim>\<open>document.body\<close> whose \<^verbatim>\<open>src\<close> is \<open>u\<close>.\<close>

definition scripts_with_src :: "loader_state \<Rightarrow> string \<Rightarrow> nat list" where
  "scripts_with_src s u = filter (\<lambda>a. src (scripts s ! a) = u) (body s)"

text \<open>
  A call that unloads a handle whose key is \<open>k\<close>, and a sequence of calls, run from
  \<open>s\<close>, none of which does.
\<close>

fun unloads_key :: "loader_state \<Rightarrow> string \<Rightarrow> operation \<Rightarrow> bool" where
  "unloads_key s k (Unload h) = (h < length (heap s) \<and> url (heap s ! h) = k)"
| "unloads_key s k (Destroy h) = (h < length (heap s) \<and> url (heap s ! h) = k)"
| "unloads_key s k (Load moduleName moduleFilename host) = False"
| "unloads_key s k (LoadJs u) = False"
| "unloads_key s k (ScriptOnload a) = False"

fun keeps_key :: "string \<Rightarrow> loader_state \<Rightarrow> operation list \<Rightarrow> bool" where
  "keeps_key k s [] = True"
| "keeps_key k s (op # ops) = (\<not> unloads_key s k op \<and> keeps_key k (step s op) ops)"

text \<open>
  What holds of every handle a service ever made: its key has the form
  \<^verbatim>\<open>filename#name\<close>, and the captured \<open>compFactory\<close> has as own properties exactly the
  names other than \<^verbatim>\<open>__proto__\<close> that the module class declares, each with its class and
  the factory the module instance resolves; its prototype is \<^verbatim>\<open>Object.prototype\<close> unless
  the module class declares \<^verbatim>\<open>__proto__\<close>. And every cache entry is a handle with that key.
\<close>

definition bundle_wf :: "module_bundle \<Rightarrow> bool" where
  "bundle_wf b =
     (CHR ''#'' \<in> set (url b) \<and>
      (\<exists>cs. creatableComponents (moduleType b) = Some cs \<and>
        (\<forall>k. k \<noteq> ''__proto__'' \<longrightarrow>
           (case map_of cs k of
              None \<Rightarrow> own (compFactory b) k = None
            | Some t \<Rightarrow> \<exists>f. resolveComponentFactory (moduleRef b) t = Some f \<and>
                         own (compFactory b) k = Some \<lparr>comp_type = t, comp_factory = f\<rparr>)) \<and>
        own (compFactory b) ''__proto__'' = None \<and>
        (prototype (compFactory b) \<noteq> None \<longrightarrow> map_of cs ''__proto__'' \<noteq> None)))"

definition wf :: "loader_state \<Rightarrow> bool" where
  "wf s =
     ((\<forall>b \<in> set (heap s). bundle_wf b) \<and>
      (\<forall>k h. cache s k = Some h \<longrightarrow> h < length (heap s) \<and> url (heap s ! h) = k))"


text \<open>
  The module of the usage notes at the head of the source file:
  \<^verbatim>\<open>static creatableComponents = { MyLazyComponent, }\<close>.
\<close>

definition MyLazyModule :: module_factory where
  "MyLazyModule =
     \<lparr>factory_moduleType =
        \<lparr>type_id = 1,
         creatableComponents =
           Some [(''MyLazyComponent'', \<lparr>class_id = 7, static_factory = None\<rparr>)]\<rparr>,
      factory_create =
        Some \<lparr>ref_id = 2,
              componentFactoryResolver =
                [(\<lparr>class_id = 7, static_factory = None\<rparr>,
                  \<lparr>factory_id = 70,
                   inner_factory = Some \<lparr>value_id = 700, has_create = True\<rparr>\<rparr>)]\<rparr>,
      factory_emit = ES5\<rparr>"


section \<open>Keys and the component-factory object\<close>

lemma hash_not_prototype_key: "CHR ''#'' \<in> set k \<Longrightarrow> k \<notin> set object_prototype_keys"
  by (auto simp: object_prototype_keys_def)

lemma moduleURL_has_hash: "CHR ''#'' \<in> set (moduleURL_of n f)"
  by (simp add: moduleURL_of_def)

lemma js_get_hash:
  "CHR ''#'' \<in> set k \<Longrightarrow> js_get obj k = (case obj k of Some v \<Rightarrow> Own v | None \<Rightarrow> Undefined)"
  by (simp add: js_get_def hash_not_prototype_key split: option.splits)

lemma js_get_moduleURL:
  "js_get obj (moduleURL_of n f) =
     (case obj (moduleURL_of n f) of Some v \<Rightarrow> Own v | None \<Rightarrow> Undefined)"
  by (rule js_get_hash [OF moduleURL_has_hash])

lemma foldl_concat_sources:
  "foldl (\<lambda>obj source. foldl js_set obj (lit_own source)) obj sources =
   foldl js_set obj (concat (map lit_own sources))"
  by (induction sources arbitrary: obj) simp_all

lemma Object_assign_flat:
  "Object_assign sources =
     foldl js_set \<lparr>own = Map.empty, prototype = None\<rparr> (concat (map lit_own sources))"
  by (simp add: Object_assign_def foldl_concat_sources)

lemma own_foldl_js_set:
  "k \<noteq> ''__proto__'' \<Longrightarrow>
   own (foldl js_set obj ps) k = (case map_of (rev ps) k of None \<Rightarrow> own obj k | Some e \<Rightarrow> Some e)"
  by (induction ps arbitrary: obj) (auto simp: js_set_def split: option.splits)

lemma own_proto_foldl_js_set:
  "own obj ''__proto__'' = None \<Longrightarrow> own (foldl js_set obj ps) ''__proto__'' = None"
  by (induction ps arbitrary: obj) (auto simp: js_set_def)

lemma prototype_foldl_js_set:
  "''__proto__'' \<notin> fst ` set ps \<Longrightarrow> prototype (foldl js_set obj ps) = prototype obj"
  by (induction ps arbitrary: obj) (auto simp: js_set_def)

lemma compFactoryArray_flat:
  "compFactoryArray r em ec keys = Inr arr \<Longrightarrow>
   (\<forall>(k, e) \<in> set (concat (map lit_own arr)). k \<in> set keys \<and>
        (\<exists>t f. ec k = Some t \<and> resolveComponentFactory r t = Some f \<and>
               e = \<lparr>comp_type = t, comp_factory = f\<rparr>)) \<and>
   (\<forall>k \<in> set keys. k \<noteq> ''__proto__'' \<longrightarrow> k \<in> fst ` set (concat (map lit_own arr)))"
proof (induction keys arbitrary: arr)
  case Nil
  then show ?case by simp
next
  case (Cons key keys)
  from Cons.prems obtain t f rest where
    t: "ec key = Some t" and f: "resolveComponentFactory r t = Some f"
    and rest: "compFactoryArray r em ec keys = Inr rest"
    and arr: "arr = computed_property em key \<lparr>comp_type = t, comp_factory = f\<rparr> # rest"
    by (auto split: option.splits sum.splits)
  have own1: "set (lit_own (computed_property em key \<lparr>comp_type = t, comp_factory = f\<rparr>)) \<subseteq>
      {(key, \<lparr>comp_type = t, comp_factory = f\<rparr>)}"
    by (cases em) (simp_all add: computed_property_def)
  have own2: "key \<noteq> ''__proto__'' \<Longrightarrow>
      lit_own (computed_property em key \<lparr>comp_type = t, comp_factory = f\<rparr>) =
        [(key, \<lparr>comp_type = t, comp_factory = f\<rparr>)]"
    by (cases em) (simp_all add: computed_property_def)
  from Cons.IH [OF rest] have ih1: "\<forall>(k, e) \<in> set (concat (map lit_own rest)). k \<in> set keys \<and>
        (\<exists>t f. ec k = Some t \<and> resolveComponentFactory r t = Some f \<and>
               e = \<lparr>comp_type = t, comp_factory = f\<rparr>)"
    and ih2: "\<forall>k \<in> set keys. k \<noteq> ''__proto__'' \<longrightarrow> k \<in> fst ` set (concat (map lit_own rest))"
    by simp_all
  have p1: "\<forall>(k, e) \<in> set (concat (map lit_own arr)). k \<in> set (key # keys) \<and>
        (\<exists>t f. ec k = Some t \<and> resolveComponentFactory r t = Some f \<and>
               e = \<lparr>comp_type = t, comp_factory = f\<rparr>)"
    using ih1 own1 t f unfolding arr by fastforce
  have p2: "\<forall>k \<in> set (key # keys). k \<noteq> ''__proto__'' \<longrightarrow> k \<in> fst ` set (concat (map lit_own arr))"
    using ih2 own2 unfolding arr by (auto simp: image_Un)
  from p1 p2 show ?case by blast
qed

lemma compFactoryArray_succeeds:
  "\<forall>k \<in> set keys. \<exists>t f. ec k = Some t \<and> resolveComponentFactory r t = Some f \<Longrightarrow>
   \<exists>arr. compFactoryArray r em ec keys = Inr arr"
  by (induction keys) (auto split: option.splits sum.splits)

lemma Object_assign_entries:
  assumes "compFactoryArray r em (map_of cs) (map fst cs) = Inr arr"
  shows "(\<forall>k. k \<noteq> ''__proto__'' \<longrightarrow>
           (case map_of cs k of
              None \<Rightarrow> own (Object_assign arr) k = None
            | Some t \<Rightarrow> \<exists>f. resolveComponentFactory r t = Some f \<and>
                         own (Object_assign arr) k = Some \<lparr>comp_type = t, comp_factory = f\<rparr>)) \<and>
         own (Object_assign arr) ''__proto__'' = None \<and>
         (prototype (Object_assign arr) \<noteq> None \<longrightarrow> map_of cs ''__proto__'' \<noteq> None)"
proof -
  let ?flat = "concat (map lit_own arr)"
  from compFactoryArray_flat [OF assms]
  have ents: "\<forall>(k, e) \<in> set ?flat. k \<in> set (map fst cs) \<and>
        (\<exists>t f. map_of cs k = Some t \<and> resolveComponentFactory r t = Some f \<and>
               e = \<lparr>comp_type = t, comp_factory = f\<rparr>)"
    and keys: "\<forall>k \<in> set (map fst cs). k \<noteq> ''__proto__'' \<longrightarrow> k \<in> fst ` set ?flat"
    by blast+
  have in_keys: "k \<in> set (map fst cs) \<longleftrightarrow> map_of cs k \<noteq> None" for k
    by (simp add: map_of_eq_None_iff)
  have a: "case map_of cs k of
              None \<Rightarrow> own (Object_assign arr) k = None
            | Some t \<Rightarrow> \<exists>f. resolveComponentFactory r t = Some f \<and>
                         own (Object_assign arr) k = Some \<lparr>comp_type = t, comp_factory = f\<rparr>"
    if k: "k \<noteq> ''__proto__''" for k
  proof (cases "map_of cs k")
    case None
    then have "k \<notin> fst ` set ?flat"
      using ents in_keys by fastforce
    then have "map_of (rev ?flat) k = None"
      by (simp add: map_of_eq_None_iff)
    with None k show ?thesis
      by (simp add: Object_assign_flat own_foldl_js_set)
  next
    case (Some t)
    then have "k \<in> set (map fst cs)"
      using in_keys by blast
    then have "k \<in> fst ` set ?flat"
      using keys k by blast
    then have "map_of (rev ?flat) k \<noteq> None"
      by (simp add: map_of_eq_None_iff)
    then obtain e where e: "map_of (rev ?flat) k = Some e" by auto
    then have "(k, e) \<in> set ?flat"
      using map_of_SomeD by fastforce
    with ents Some obtain f where "resolveComponentFactory r t = Some f"
      "e = \<lparr>comp_type = t, comp_factory = f\<rparr>"
      by fastforce
    with Some e k show ?thesis
      by (simp add: Object_assign_flat own_foldl_js_set)
  qed
  have b: "own (Object_assign arr) ''__proto__'' = None"
    by (simp add: Object_assign_flat own_proto_foldl_js_set)
  have c: "map_of cs ''__proto__'' \<noteq> None" if "prototype (Object_assign arr) \<noteq> None"
  proof -
    have "''__proto__'' \<in> fst ` set ?flat"
    proof (rule ccontr)
      assume "''__proto__'' \<notin> fst ` set ?flat"
      from prototype_foldl_js_set [OF this, of "\<lparr>own = Map.empty, prototype = None\<rparr>"]
      have "prototype (Object_assign arr) = None"
        by (simp add: Object_assign_flat)
      with that show False by simp
    qed
    then show ?thesis using ents in_keys by fastforce
  qed
  from a b c show ?thesis by blast
qed

lemma instantiates_array:
  assumes "instantiates mf"
  obtains r cs arr where "factory_create mf = Some r"
    "creatableComponents (factory_moduleType mf) = Some cs"
    "compFactoryArray r (factory_emit mf) (map_of cs) (map fst cs) = Inr arr"
proof -
  from assms obtain r cs where r: "factory_create mf = Some r"
    and cs: "creatableComponents (factory_moduleType mf) = Some cs"
    and all: "list_all (\<lambda>(k, t). resolveComponentFactory r t \<noteq> None) cs"
    by (auto simp: instantiates_def split: option.splits)
  have "\<forall>k \<in> set (map fst cs). \<exists>t f. map_of cs k = Some t \<and> resolveComponentFactory r t = Some f"
  proof
    fix k assume "k \<in> set (map fst cs)"
    then obtain t where t: "map_of cs k = Some t"
      by (metis map_of_eq_None_iff not_None_eq set_map)
    then have "(k, t) \<in> set cs" by (rule map_of_SomeD)
    with all have "resolveComponentFactory r t \<noteq> None"
      by (auto simp: list_all_iff)
    with t show "\<exists>t f. map_of cs k = Some t \<and> resolveComponentFactory r t = Some f" by auto
  qed
  from compFactoryArray_succeeds [OF this] obtain arr
    where "compFactoryArray r (factory_emit mf) (map_of cs) (map fst cs) = Inr arr" by auto
  with r cs that show thesis by blast
qed

section \<open>load: cache hits and misses\<close>

lemma load_then_hit:
  "cache s (moduleURL_of n f) = Some h \<Longrightarrow> load_then s n f mf = (s, Inr (VHandle h))"
  by (simp add: load_then_def js_get_moduleURL)

lemma load_then_miss:
  assumes "cache s (moduleURL_of n f) = None" "factory_create mf = Some r"
    "creatableComponents (factory_moduleType mf) = Some cs"
    "compFactoryArray r (factory_emit mf) (map_of cs) (map fst cs) = Inr arr"
  shows "load_then s n f mf =
    (s\<lparr>console := console s @ [(''Loading Module '', moduleURL_of n f)],
       heap := heap s @ [\<lparr>name = n, url = moduleURL_of n f, factory = Some (Object_assign arr),
                          moduleRef = r, moduleType = factory_moduleType mf,
                          unloaded = None, compFactory = Object_assign arr\<rparr>],
       cache := (cache s)(moduleURL_of n f \<mapsto> length (heap s))\<rparr>,
     Inr (VHandle (length (heap s))))"
  using assms by (simp add: load_then_def js_get_moduleURL Let_def)

lemma load_then_cases:
  "(\<exists>h. cache s (moduleURL_of n f) = Some h \<and> load_then s n f mf = (s, Inr (VHandle h))) \<or>
   (cache s (moduleURL_of n f) = None \<and>
     ((\<exists>e. load_then s n f mf = (s\<lparr>console := console s @ [(''Loading Module '', moduleURL_of n f)]\<rparr>, Inl e)) \<or>
      (\<exists>b. load_then s n f mf =
         (s\<lparr>console := console s @ [(''Loading Module '', moduleURL_of n f)],
            heap := heap s @ [b],
            cache := (cache s)(moduleURL_of n f \<mapsto> length (heap s))\<rparr>,
          Inr (VHandle (length (heap s)))) \<and>
         name b = n \<and> url b = moduleURL_of n f \<and> unloaded b = None \<and> bundle_wf b)))"
proof (cases "cache s (moduleURL_of n f)")
  case (Some h)
  then show ?thesis by (simp add: load_then_hit)
next
  case None
  show ?thesis
  proof (cases "factory_create mf")
    case N1: None
    with None show ?thesis by (simp add: load_then_def js_get_moduleURL Let_def)
  next
    case (Some r)
    show ?thesis
    proof (cases "creatableComponents (factory_moduleType mf)")
      case N2: None
      with None Some show ?thesis by (simp add: load_then_def js_get_moduleURL Let_def)
    next
      case S2: (Some cs)
      show ?thesis
      proof (cases "compFactoryArray r (factory_emit mf) (map_of cs) (map fst cs)")
        case (Inl e)
        with None Some S2 show ?thesis by (simp add: load_then_def js_get_moduleURL Let_def)
      next
        case (Inr arr)
        let ?b = "\<lparr>name = n, url = moduleURL_of n f, factory = Some (Object_assign arr),
                   moduleRef = r, moduleType = factory_moduleType mf,
                   unloaded = None, compFactory = Object_assign arr\<rparr>"
        from Object_assign_entries [OF Inr] S2 have wfb: "bundle_wf ?b"
          by (simp add: bundle_wf_def moduleURL_has_hash cong: option.case_cong)
        have "\<exists>b. load_then s n f mf =
         (s\<lparr>console := console s @ [(''Loading Module '', moduleURL_of n f)],
            heap := heap s @ [b],
            cache := (cache s)(moduleURL_of n f \<mapsto> length (heap s))\<rparr>,
          Inr (VHandle (length (heap s)))) \<and>
         name b = n \<and> url b = moduleURL_of n f \<and> unloaded b = None \<and> bundle_wf b"
          by (rule exI [of _ ?b]) (simp add: load_then_miss [OF None Some S2 Inr] wfb)
        with None show ?thesis by simp
      qed
    qed
  qed
qed

lemma load_cases:
  "(load s n f ho = (s, Resolved VUndefined) \<and> ho = LoadThrows) \<or>
   (load s n f ho = (s, Pending) \<and> (ho = LoadRejects \<or> ho = LoadNeverSettles)) \<or>
   (\<exists>h mf. ho = LoadResolves mf \<and> cache s (moduleURL_of n f) = Some h \<and>
        load s n f ho = (s, Resolved (VHandle h))) \<or>
   (\<exists>mf. ho = LoadResolves mf \<and> cache s (moduleURL_of n f) = None \<and>
        load s n f ho = (s\<lparr>console := console s @ [(''Loading Module '', moduleURL_of n f)]\<rparr>, Pending)) \<or>
   (\<exists>mf b. ho = LoadResolves mf \<and> cache s (moduleURL_of n f) = None \<and>
        load s n f ho =
         (s\<lparr>console := console s @ [(''Loading Module '', moduleURL_of n f)],
            heap := heap s @ [b],
            cache := (cache s)(moduleURL_of n f \<mapsto> length (heap s))\<rparr>,
          Resolved (VHandle (length (heap s)))) \<and>
        name b = n \<and> url b = moduleURL_of n f \<and> unloaded b = None \<and> bundle_wf b)"
proof (cases ho)
  case (LoadResolves mf)
  from load_then_cases [of s n f mf] show ?thesis
    by (elim disjE exE conjE) (auto simp: load_def LoadResolves)
qed (simp_all add: load_def)

lemma load_miss_instantiates:
  assumes "cache s (moduleURL_of n f) = None" "instantiates mf"
  shows "\<exists>b. load s n f (LoadResolves mf) =
         (s\<lparr>console := console s @ [(''Loading Module '', moduleURL_of n f)],
            heap := heap s @ [b],
            cache := (cache s)(moduleURL_of n f \<mapsto> length (heap s))\<rparr>,
          Resolved (VHandle (length (heap s)))) \<and>
        name b = n \<and> url b = moduleURL_of n f \<and> unloaded b = None \<and>
        moduleType b = factory_moduleType mf \<and> factory_create mf = Some (moduleRef b) \<and>
        factory b = Some (compFactory b)"
proof -
  from assms(2) obtain r cs arr where a: "factory_create mf = Some r"
    "creatableComponents (factory_moduleType mf) = Some cs"
    "compFactoryArray r (factory_emit mf) (map_of cs) (map fst cs) = Inr arr"
    by (rule instantiates_array)
  show ?thesis
    by (rule exI [of _ "\<lparr>name = n, url = moduleURL_of n f, factory = Some (Object_assign arr),
                   moduleRef = r, moduleType = factory_moduleType mf,
                   unloaded = None, compFactory = Object_assign arr\<rparr>"])
      (simp add: load_def load_then_miss [OF assms(1) a] a)
qed

lemma load_resolved_cached:
  "load s n f ho = (s1, Resolved (VHandle h)) \<Longrightarrow> cache s1 (moduleURL_of n f) = Some h"
  using load_cases [of s n f ho] by auto

lemma load_hit:
  "cache s (moduleURL_of n f) = Some h \<Longrightarrow> load s n f (LoadResolves mf) = (s, Resolved (VHandle h))"
  by (simp add: load_def load_then_hit)

lemma load_host_throws_undefined:
  "load s n f LoadThrows = (s, Resolved VUndefined)"
  by (simp add: load_def)

text \<open>
  Claim C2. The claim says that \<^verbatim>\<open>load\<close> resolves with \<^verbatim>\<open>undefined\<close> whenever
  the host's module resolution fails. The code does so when the host loader throws
  synchronously (\<open>load_host_throws_undefined\<close>); when the promise of the host loader
  rejects, nothing handles the rejection and the promise of \<^verbatim>\<open>load\<close> never settles.
\<close>

theorem load_host_rejects_never_settles:
  "load s n f LoadRejects = (s, Pending)"
  by (simp add: load_def)

text \<open>
  Claim C10. For every input and every behaviour of the host runtime the promise
  returned by \<^verbatim>\<open>load\<close> is never rejected, and a failed call either resolves it with
  \<^verbatim>\<open>undefined\<close> or leaves it unsettled for ever.
\<close>

theorem load_never_rejects:
  "snd (load s n f ho) \<noteq> Rejected e \<and>
   (load_fails s n f ho \<longrightarrow>
      snd (load s n f ho) = Resolved VUndefined \<or> snd (load s n f ho) = Pending)"
proof (cases ho)
  case (LoadResolves mf)
  then show ?thesis
    by (cases "load_then s n f mf") (auto simp: load_def load_fails_def split: sum.splits)
qed (simp_all add: load_def load_fails_def)

theorem load_never_rejects_witness:
  "load_fails (new_service 0) ''Lazy'' ''bundle/lazy.module'' LoadRejects \<and>
   snd (load (new_service 0) ''Lazy'' ''bundle/lazy.module'' LoadRejects) = Pending"
  using load_never_rejects [of "new_service 0" "''Lazy''" "''bundle/lazy.module''" LoadRejects]
  by (simp add: load_fails_def load_def)

section \<open>unload\<close>

lemma MyLazyModule_instantiates: "instantiates MyLazyModule"
  by (simp add: instantiates_def MyLazyModule_def resolveComponentFactory_def)


lemma unload_present:
  assumes "h < length (heap s)" "cache s (url (heap s ! h)) = Some c"
  shows "unload s h =
    (s\<lparr>heap := (heap s)[h := (heap s ! h)
            \<lparr>name := name (heap s ! h) @ ''-unloaded'', unloaded := Some True, factory := None\<rparr>],
       destroyed := destroyed s @ [moduleRef (heap s ! h)],
       cache := (cache s)(url (heap s ! h) := None)\<rparr>,
     Resolved ())"
  using assms by (simp add: unload_def js_get_def Let_def)

lemma unload_absent:
  assumes "h < length (heap s)" "cache s (url (heap s ! h)) = None"
    "CHR ''#'' \<in> set (url (heap s ! h))"
  shows "unload s h = (s, Resolved ())"
  using assms by (simp add: unload_def js_get_hash Let_def)

lemma unload_heap_length: "length (heap (fst (unload s h))) = length (heap s)"
  by (simp add: unload_def Let_def)

lemma unload_url: "url (heap (fst (unload s h)) ! j) = url (heap s ! j)"
  by (cases "j < length (heap s)") (auto simp: unload_def Let_def nth_list_update)

lemma unload_clears_key:
  assumes "h < length (heap s)" "CHR ''#'' \<in> set (url (heap s ! h))"
  shows "cache (fst (unload s h)) (url (heap s ! h)) = None"
proof (cases "cache s (url (heap s ! h))")
  case None
  with assms show ?thesis by (simp add: unload_absent)
next
  case (Some c)
  with assms show ?thesis by (simp add: unload_present)
qed

lemma unload_keeps_absent:
  "cache s k = None \<Longrightarrow> cache (fst (unload s j)) k = None"
  by (simp add: unload_def Let_def)

lemma new_service_sel:
  "heap (new_service i) = []" "cache (new_service i) = Map.empty"
  "console (new_service i) = []" "destroyed (new_service i) = []"
  "loadedLibraries (new_service i) = Map.empty" "scripts (new_service i) = []"
  "body (new_service i) = []" "loader_inj (new_service i) = i"
  by (simp_all add: new_service_def)

lemma load_fresh:
  assumes "instantiates mf"
  obtains b where
    "load (new_service i) n f (LoadResolves mf) =
       ((new_service i)\<lparr>console := [(''Loading Module '', moduleURL_of n f)],
          heap := [b], cache := [moduleURL_of n f \<mapsto> 0]\<rparr>,
        Resolved (VHandle 0))"
    "name b = n" "url b = moduleURL_of n f" "unloaded b = None"
    "moduleType b = factory_moduleType mf" "factory_create mf = Some (moduleRef b)"
    "factory b = Some (compFactory b)"
proof -
  have "cache (new_service i) (moduleURL_of n f) = None"
    by (simp add: new_service_sel)
  from load_miss_instantiates [OF this assms] that show thesis
    by (auto simp: new_service_sel)
qed

text \<open>
  Claim C4. For a handle \<open>h\<close> whose key \<open>url\<close> is still present in the cache,
  \<^verbatim>\<open>unload(h)\<close> returns normally, appends \<^verbatim>\<open>-unloaded\<close> to the name of \<open>h\<close>,
  sets \<open>unloaded\<close> to true, calls \<^verbatim>\<open>destroy\<close> on the module instance of \<open>h\<close>, leaves
  \<open>factory\<close> undefined and removes the cache entry of the key. In particular a module
  loaded by a fresh service as \<^verbatim>\<open>load("Lazy", "bundle/lazy.module")\<close> has the name
  \<^verbatim>\<open>Lazy\<close>, and after \<^verbatim>\<open>unload\<close> the name \<^verbatim>\<open>Lazy-unloaded\<close> and \<open>unloaded\<close> true.
\<close>

theorem unload_effects:
  assumes "h < length (heap s)" "url (heap s ! h) \<in> dom (cache s)"
  shows "unload s h = (fst (unload s h), Resolved ()) \<and>
         name (heap (fst (unload s h)) ! h) = name (heap s ! h) @ ''-unloaded'' \<and>
         unloaded (heap (fst (unload s h)) ! h) = Some True \<and>
         destroyed (fst (unload s h)) = destroyed s @ [moduleRef (heap s ! h)] \<and>
         factory (heap (fst (unload s h)) ! h) = None \<and>
         cache (fst (unload s h)) (url (heap s ! h)) = None \<and>
         (instantiates mf \<longrightarrow>
            snd (load (new_service i) ''Lazy'' ''bundle/lazy.module'' (LoadResolves mf)) =
              Resolved (VHandle 0) \<and>
            name (heap (fst (load (new_service i) ''Lazy'' ''bundle/lazy.module'' (LoadResolves mf))) ! 0) =
              ''Lazy'' \<and>
            name (heap (fst (unload (fst (load (new_service i) ''Lazy'' ''bundle/lazy.module''
                    (LoadResolves mf))) 0)) ! 0) = ''Lazy-unloaded'' \<and>
            unloaded (heap (fst (unload (fst (load (new_service i) ''Lazy'' ''bundle/lazy.module''
                    (LoadResolves mf))) 0)) ! 0) = Some True)"
proof -
  from assms(2) obtain c where c: "cache s (url (heap s ! h)) = Some c" by auto
  have general: "unload s h = (fst (unload s h), Resolved ()) \<and>
         name (heap (fst (unload s h)) ! h) = name (heap s ! h) @ ''-unloaded'' \<and>
         unloaded (heap (fst (unload s h)) ! h) = Some True \<and>
         destroyed (fst (unload s h)) = destroyed s @ [moduleRef (heap s ! h)] \<and>
         factory (heap (fst (unload s h)) ! h) = None \<and>
         cache (fst (unload s h)) (url (heap s ! h)) = None"
    using assms(1) by (simp add: unload_present [OF assms(1) c])
  have scenario: "snd (load (new_service i) ''Lazy'' ''bundle/lazy.module'' (LoadResolves mf)) =
              Resolved (VHandle 0) \<and>
            name (heap (fst (load (new_service i) ''Lazy'' ''bundle/lazy.module'' (LoadResolves mf))) ! 0) =
              ''Lazy'' \<and>
            name (heap (fst (unload (fst (load (new_service i) ''Lazy'' ''bundle/lazy.module''
                    (LoadResolves mf))) 0)) ! 0) = ''Lazy-unloaded'' \<and>
            unloaded (heap (fst (unload (fst (load (new_service i) ''Lazy'' ''bundle/lazy.module''
                    (LoadResolves mf))) 0)) ! 0) = Some True"
    if inst: "instantiates mf"
  proof -
    from inst obtain b where
      l: "load (new_service i) ''Lazy'' ''bundle/lazy.module'' (LoadResolves mf) =
       ((new_service i)\<lparr>console := [(''Loading Module '', moduleURL_of ''Lazy'' ''bundle/lazy.module'')],
          heap := [b], cache := [moduleURL_of ''Lazy'' ''bundle/lazy.module'' \<mapsto> 0]\<rparr>,
        Resolved (VHandle 0))"
      and b: "name b = ''Lazy''" "url b = moduleURL_of ''Lazy'' ''bundle/lazy.module''"
      by (rule load_fresh)
    show ?thesis
      by (simp add: l b unload_def js_get_moduleURL Let_def)
  qed
  from general scenario show ?thesis by blast
qed

theorem unload_effects_witness:
  "instantiates MyLazyModule \<and>
   name (heap (fst (unload (fst (load (new_service 0) ''Lazy'' ''bundle/lazy.module''
       (LoadResolves MyLazyModule))) 0)) ! 0) = ''Lazy-unloaded'' \<and>
   cache (fst (unload (fst (load (new_service 0) ''Lazy'' ''bundle/lazy.module''
       (LoadResolves MyLazyModule))) 0)) ''bundle/lazy.module#Lazy'' = None"
proof -
  let ?s = "fst (load (new_service 0) ''Lazy'' ''bundle/lazy.module'' (LoadResolves MyLazyModule))"
  from MyLazyModule_instantiates obtain b where
      l: "load (new_service 0) ''Lazy'' ''bundle/lazy.module'' (LoadResolves MyLazyModule) =
       ((new_service 0)\<lparr>console := [(''Loading Module '', moduleURL_of ''Lazy'' ''bundle/lazy.module'')],
          heap := [b], cache := [moduleURL_of ''Lazy'' ''bundle/lazy.module'' \<mapsto> 0]\<rparr>,
        Resolved (VHandle 0))"
      and b: "name b = ''Lazy''" "url b = moduleURL_of ''Lazy'' ''bundle/lazy.module''"
    by (rule load_fresh)
  have h: "0 < length (heap ?s)" by (simp add: l)
  have u: "url (heap ?s ! 0) = ''bundle/lazy.module#Lazy''"
    by (simp add: l b moduleURL_of_def)
  have d: "url (heap ?s ! 0) \<in> dom (cache ?s)"
    by (simp add: l b)
  have n: "name (heap ?s ! 0) = ''Lazy''" by (simp add: l b)
  from unload_effects [OF h d, of MyLazyModule 0] u n MyLazyModule_instantiates
  show ?thesis by simp
qed

text \<open>
  Claim C8. Let \<open>h\<close> be a handle whose key is that of the pair
  \<open>(moduleName, moduleFilename)\<close>. After \<^verbatim>\<open>unload(h)\<close> the cache has no entry for the
  key; no later \<^verbatim>\<open>load\<close> of the pair resolves with \<open>h\<close>, whatever the host does; and
  when the host delivers a module factory that instantiates, that \<^verbatim>\<open>load\<close> resolves with
  a newly allocated handle, different from \<open>h\<close>, which is the new cache entry.
\<close>

theorem reload_after_unload_new_handle:
  assumes "h < length (heap s)" "url (heap s ! h) = moduleURL_of n f"
  shows "cache (fst (unload s h)) (moduleURL_of n f) = None \<and>
         snd (load (fst (unload s h)) n f ho) \<noteq> Resolved (VHandle h) \<and>
         (instantiates mf \<longrightarrow>
            snd (load (fst (unload s h)) n f (LoadResolves mf)) = Resolved (VHandle (length (heap s))) \<and>
            length (heap s) \<noteq> h \<and>
            cache (fst (load (fst (unload s h)) n f (LoadResolves mf))) (moduleURL_of n f) =
              Some (length (heap s)) \<and>
            name (heap (fst (load (fst (unload s h)) n f (LoadResolves mf))) ! length (heap s)) = n \<and>
            unloaded (heap (fst (load (fst (unload s h)) n f (LoadResolves mf))) ! length (heap s)) = None)"
proof -
  let ?s1 = "fst (unload s h)"
  have "CHR ''#'' \<in> set (url (heap s ! h))"
    by (simp add: assms(2) moduleURL_has_hash)
  from unload_clears_key [OF assms(1) this]
  have gone: "cache ?s1 (moduleURL_of n f) = None"
    by (simp add: assms(2))
  have len: "length (heap ?s1) = length (heap s)"
    by (rule unload_heap_length)
  have never: "snd (load ?s1 n f ho) \<noteq> Resolved (VHandle h)"
    using load_cases [of ?s1 n f ho] gone len assms(1) by auto
  have fresh: "snd (load ?s1 n f (LoadResolves mf)) = Resolved (VHandle (length (heap s))) \<and>
            length (heap s) \<noteq> h \<and>
            cache (fst (load ?s1 n f (LoadResolves mf))) (moduleURL_of n f) = Some (length (heap s)) \<and>
            name (heap (fst (load ?s1 n f (LoadResolves mf))) ! length (heap s)) = n \<and>
            unloaded (heap (fst (load ?s1 n f (LoadResolves mf))) ! length (heap s)) = None"
    if "instantiates mf"
  proof -
    from load_miss_instantiates [OF gone that] obtain b where
      l: "load ?s1 n f (LoadResolves mf) =
         (?s1\<lparr>console := console ?s1 @ [(''Loading Module '', moduleURL_of n f)],
            heap := heap ?s1 @ [b],
            cache := (cache ?s1)(moduleURL_of n f \<mapsto> length (heap ?s1))\<rparr>,
          Resolved (VHandle (length (heap ?s1))))"
      and b: "name b = n" "unloaded b = None"
      by blast
    have "(heap ?s1 @ [b]) ! length (heap s) = b"
      using len by (metis nth_append_length)
    with assms(1) show ?thesis
      by (simp add: l len b)
  qed
  from gone never fresh show ?thesis by blast
qed

section \<open>What holds of every reachable state\<close>

lemma bundle_wf_unloaded:
  "bundle_wf (b\<lparr>name := x, unloaded := y, factory := z\<rparr>) = bundle_wf b"
  by (simp add: bundle_wf_def cong: option.case_cong)

lemma wf_new_service: "wf (new_service i)"
  by (simp add: wf_def new_service_def)

lemma wf_load: "wf s \<Longrightarrow> wf (fst (load s n f ho))"
proof -
  assume w: "wf s"
  from load_cases [of s n f ho] show ?thesis
  proof (elim disjE exE conjE)
    fix mf b
    assume l: "load s n f ho =
         (s\<lparr>console := console s @ [(''Loading Module '', moduleURL_of n f)],
            heap := heap s @ [b],
            cache := (cache s)(moduleURL_of n f \<mapsto> length (heap s))\<rparr>,
          Resolved (VHandle (length (heap s))))"
      and b: "url b = moduleURL_of n f" "bundle_wf b"
    have "\<forall>b' \<in> set (heap s @ [b]). bundle_wf b'"
      using w b by (simp add: wf_def)
    moreover have "\<forall>k h. ((cache s)(moduleURL_of n f \<mapsto> length (heap s))) k = Some h \<longrightarrow>
        h < length (heap s @ [b]) \<and> url ((heap s @ [b]) ! h) = k"
    proof (intro allI impI)
      fix k h
      assume c: "((cache s)(moduleURL_of n f \<mapsto> length (heap s))) k = Some h"
      show "h < length (heap s @ [b]) \<and> url ((heap s @ [b]) ! h) = k"
      proof (cases "k = moduleURL_of n f")
        case True
        with c have "h = length (heap s)" by simp
        with True b show ?thesis by simp
      next
        case False
        with c have "cache s k = Some h" by simp
        with w have "h < length (heap s)" "url (heap s ! h) = k"
          by (simp_all add: wf_def)
        then show ?thesis by (simp add: nth_append)
      qed
    qed
    ultimately show ?thesis by (simp add: l wf_def)
  qed (use w in \<open>simp_all add: wf_def\<close>)
qed

lemma wf_unload: "wf s \<Longrightarrow> wf (fst (unload s h))"
proof -
  assume w: "wf s"
  show ?thesis
  proof (cases "h < length (heap s) \<and> truthy (js_get (cache s) (url (heap s ! h)))")
    case True
    let ?b = "(heap s ! h)\<lparr>name := name (heap s ! h) @ ''-unloaded'', unloaded := Some True,
                factory := None\<rparr>"
    have u: "fst (unload s h) =
        s\<lparr>heap := (heap s)[h := ?b], destroyed := destroyed s @ [moduleRef (heap s ! h)],
          cache := (cache s)(url (heap s ! h) := None)\<rparr>"
      using True by (simp add: unload_def Let_def)
    have "bundle_wf (heap s ! h)" using w True by (simp add: wf_def)
    then have "bundle_wf ?b" by (simp add: bundle_wf_unloaded)
    then have "\<forall>b' \<in> set ((heap s)[h := ?b]). bundle_wf b'"
      using w set_update_subset_insert [of "heap s" h ?b] by (auto simp: wf_def)
    moreover have "url ((heap s)[h := ?b] ! j) = url (heap s ! j)" for j
      by (cases "j = h") (use True in \<open>simp_all\<close>)
    then have "\<forall>k j. ((cache s)(url (heap s ! h) := None)) k = Some j \<longrightarrow>
        j < length ((heap s)[h := ?b]) \<and> url ((heap s)[h := ?b] ! j) = k"
      using w by (auto simp: wf_def split: if_splits)
    ultimately show ?thesis by (simp add: u wf_def)
  next
    case False
    with w show ?thesis by (auto simp: unload_def Let_def)
  qed
qed

lemma wf_loadJs: "wf s \<Longrightarrow> wf (fst (loadJs s u))"
  by (simp add: wf_def loadJs_def Let_def)

lemma wf_script_onload: "wf s \<Longrightarrow> wf (fst (script_onload s a))"
  by (simp add: wf_def script_onload_def)

lemma wf_step: "wf s \<Longrightarrow> wf (step s op)"
  by (cases op) (simp_all add: wf_load wf_unload wf_loadJs wf_script_onload destroy_def)

lemma reachable_wf: "reachable s \<Longrightarrow> wf s"
  by (induction rule: reachable.induct) (simp_all add: wf_new_service wf_step)

lemma reachable_bundle_wf: "reachable s \<Longrightarrow> h < length (heap s) \<Longrightarrow> bundle_wf (heap s ! h)"
  using reachable_wf [of s] by (simp add: wf_def)

lemma load_other_key_keeps:
  assumes "moduleURL_of n f \<noteq> k" "h < length (heap s)" "cache s k = None"
  shows "h < length (heap (fst (load s n f ho))) \<and>
         url (heap (fst (load s n f ho)) ! h) = url (heap s ! h) \<and>
         cache (fst (load s n f ho)) k = None"
  using load_cases [of s n f ho] assms by (auto simp: nth_append)

lemma step_keeps_unloaded:
  assumes "\<not> loads_key k op" "h < length (heap s)" "url (heap s ! h) = k" "cache s k = None"
  shows "h < length (heap (step s op)) \<and> url (heap (step s op) ! h) = k \<and> cache (step s op) k = None"
proof (cases op)
  case (Load n f ho)
  with assms load_other_key_keeps [of n f k h s ho] show ?thesis by simp
next
  case (Unload j)
  with assms show ?thesis
    by (simp add: unload_heap_length unload_url unload_keeps_absent)
next
  case (Destroy j)
  with assms show ?thesis
    by (simp add: destroy_def unload_heap_length unload_url unload_keeps_absent)
next
  case (LoadJs u)
  with assms show ?thesis by (simp add: loadJs_def Let_def)
next
  case (ScriptOnload a)
  with assms show ?thesis by (simp add: script_onload_def)
qed

lemma run_keeps_unloaded:
  assumes "\<forall>op \<in> set ops. \<not> loads_key k op" "h < length (heap s)" "url (heap s ! h) = k"
    "cache s k = None"
  shows "h < length (heap (run s ops)) \<and> url (heap (run s ops) ! h) = k \<and> cache (run s ops) k = None"
  using assms
proof (induction ops arbitrary: s)
  case Nil
  then show ?case by (simp add: run_def)
next
  case (Cons op ops)
  from Cons.prems have "\<not> loads_key k op" by simp
  from step_keeps_unloaded [OF this Cons.prems(2,3,4)]
  have "h < length (heap (step s op))" "url (heap (step s op) ! h) = k" "cache (step s op) k = None"
    by simp_all
  with Cons.IH [of "step s op"] Cons.prems(1) show ?case
    by (simp add: run_def)
qed

text \<open>
  Claim C9. Let \<open>h\<close> be a handle of a service, and let \<^verbatim>\<open>unload(h)\<close> be followed by any
  calls, none of them a \<^verbatim>\<open>load\<close> of the key of \<open>h\<close>. A second \<^verbatim>\<open>unload(h)\<close> then
  returns normally and changes nothing: not the cache, not the handle (no second suffix),
  not the list of destroyed module instances.
\<close>

theorem unload_twice_noop:
  assumes "reachable s" "h < length (heap s)"
    "\<forall>op \<in> set ops. \<not> loads_key (url (heap s ! h)) op"
  shows "unload (run (fst (unload s h)) ops) h = (run (fst (unload s h)) ops, Resolved ())"
proof -
  let ?k = "url (heap s ! h)"
  let ?s1 = "fst (unload s h)"
  have hash: "CHR ''#'' \<in> set ?k"
    using reachable_bundle_wf [OF assms(1,2)] by (simp add: bundle_wf_def)
  have "h < length (heap ?s1)" "url (heap ?s1 ! h) = ?k" "cache ?s1 ?k = None"
    using assms(2) hash by (simp_all add: unload_heap_length unload_url unload_clears_key)
  from run_keeps_unloaded [OF assms(3) this]
  have "h < length (heap (run ?s1 ops))" "url (heap (run ?s1 ops) ! h) = ?k"
    "cache (run ?s1 ops) ?k = None"
    by simp_all
  then show ?thesis
    using hash by (simp add: unload_absent)
qed

lemma reachable_first_load: "reachable (fst (load (new_service i) n f ho))"
  using reachable.call [OF reachable.fresh, of i "Load n f ho"] by simp

theorem reload_after_unload_new_handle_witness:
  "instantiates MyLazyModule \<and>
   snd (load (fst (unload (fst (load (new_service 0) ''Lazy'' ''bundle/lazy.module''
          (LoadResolves MyLazyModule))) 0)) ''Lazy'' ''bundle/lazy.module'' (LoadResolves MyLazyModule)) =
     Resolved (VHandle 1)"
proof -
  let ?s = "fst (load (new_service 0) ''Lazy'' ''bundle/lazy.module'' (LoadResolves MyLazyModule))"
  from MyLazyModule_instantiates obtain b where
      l: "load (new_service 0) ''Lazy'' ''bundle/lazy.module'' (LoadResolves MyLazyModule) =
       ((new_service 0)\<lparr>console := [(''Loading Module '', moduleURL_of ''Lazy'' ''bundle/lazy.module'')],
          heap := [b], cache := [moduleURL_of ''Lazy'' ''bundle/lazy.module'' \<mapsto> 0]\<rparr>,
        Resolved (VHandle 0))"
      and b: "url b = moduleURL_of ''Lazy'' ''bundle/lazy.module''"
    by (rule load_fresh)
  have h: "0 < length (heap ?s)" by (simp add: l)
  have u: "url (heap ?s ! 0) = moduleURL_of ''Lazy'' ''bundle/lazy.module''"
    by (simp add: l b)
  have len: "length (heap ?s) = 1" by (simp add: l)
  from reload_after_unload_new_handle [OF h u, of LoadThrows MyLazyModule] MyLazyModule_instantiates len
  show ?thesis by simp
qed

theorem unload_twice_noop_witness:
  "unload (run (fst (unload (fst (load (new_service 0) ''Lazy'' ''bundle/lazy.module''
       (LoadResolves MyLazyModule))) 0)) [LoadJs ''https://cdn/a.js'', Unload 0]) 0 =
   (run (fst (unload (fst (load (new_service 0) ''Lazy'' ''bundle/lazy.module''
       (LoadResolves MyLazyModule))) 0)) [LoadJs ''https://cdn/a.js'', Unload 0], Resolved ())"
proof -
  let ?s = "fst (load (new_service 0) ''Lazy'' ''bundle/lazy.module'' (LoadResolves MyLazyModule))"
  from MyLazyModule_instantiates obtain b where
      l: "load (new_service 0) ''Lazy'' ''bundle/lazy.module'' (LoadResolves MyLazyModule) =
       ((new_service 0)\<lparr>console := [(''Loading Module '', moduleURL_of ''Lazy'' ''bundle/lazy.module'')],
          heap := [b], cache := [moduleURL_of ''Lazy'' ''bundle/lazy.module'' \<mapsto> 0]\<rparr>,
        Resolved (VHandle 0))"
    by (rule load_fresh)
  have r: "reachable ?s" by (rule reachable_first_load)
  have h: "0 < length (heap ?s)" by (simp add: l)
  have ops: "\<forall>op \<in> set [LoadJs ''https://cdn/a.js'', Unload 0]. \<not> loads_key (url (heap ?s ! 0)) op"
    by simp
  from unload_twice_noop [OF r h ops] show ?thesis .
qed

section \<open>Loading the same module again\<close>

lemma unload_keeps_cached:
  assumes "\<not> (j < length (heap s) \<and> url (heap s ! j) = k)" "cache s k = Some h"
    "h < length (heap s)" "url (heap s ! h) = k"
  shows "cache (fst (unload s j)) k = Some h \<and> h < length (heap (fst (unload s j))) \<and>
         heap (fst (unload s j)) ! h = heap s ! h"
proof (cases "j < length (heap s)")
  case True
  with assms(1) have ne: "url (heap s ! j) \<noteq> k" by simp
  with assms(4) have "j \<noteq> h" by auto
  with True ne assms(2,3) show ?thesis
    by (simp add: unload_def Let_def)
next
  case False
  with assms show ?thesis by (simp add: unload_def)
qed

lemma step_keeps_cached:
  assumes "\<not> unloads_key s k op" "cache s k = Some h" "h < length (heap s)"
    "url (heap s ! h) = k"
  shows "cache (step s op) k = Some h \<and> h < length (heap (step s op)) \<and>
         heap (step s op) ! h = heap s ! h"
proof (cases op)
  case (Load n f ho)
  from load_cases [of s n f ho] assms(2,3) show ?thesis
    unfolding Load by (elim disjE exE conjE) (auto simp: nth_append)
next
  case (Unload j)
  with assms(1) have "\<not> (j < length (heap s) \<and> url (heap s ! j) = k)" by simp
  with assms(2,3,4) show ?thesis
    unfolding Unload by (simp add: unload_keeps_cached)
next
  case (Destroy j)
  with assms(1) have "\<not> (j < length (heap s) \<and> url (heap s ! j) = k)" by simp
  with assms(2,3,4) show ?thesis
    unfolding Destroy by (simp add: destroy_def unload_keeps_cached)
next
  case (LoadJs u)
  with assms show ?thesis by (simp add: loadJs_def Let_def)
next
  case (ScriptOnload a)
  with assms show ?thesis by (simp add: script_onload_def)
qed

lemma run_keeps_cached:
  assumes "keeps_key k s ops" "cache s k = Some h" "h < length (heap s)" "url (heap s ! h) = k"
  shows "cache (run s ops) k = Some h \<and> h < length (heap (run s ops)) \<and>
         heap (run s ops) ! h = heap s ! h"
  using assms
proof (induction ops arbitrary: s)
  case Nil
  then show ?case by (simp add: run_def)
next
  case (Cons op ops)
  from Cons.prems(1) have no: "\<not> unloads_key s k op" and rest: "keeps_key k (step s op) ops"
    by simp_all
  from step_keeps_cached [OF no Cons.prems(2,3,4)]
  have st: "cache (step s op) k = Some h" "h < length (heap (step s op))"
    "heap (step s op) ! h = heap s ! h"
    by simp_all
  from Cons.IH [OF rest st(1,2)] st(3) Cons.prems(4) show ?case
    by (simp add: run_def)
qed

text \<open>
  Claim C1 says that of every two sequential calls \<^verbatim>\<open>load(moduleName, moduleFilename)\<close>
  with the same pair the second resolves with the handle of the first. A fresh service
  loads \<^verbatim>\<open>("Lazy", "bundle/lazy.module")\<close> and resolves with handle 0. When the host loader
  throws on the second call, that call resolves with \<^verbatim>\<open>undefined\<close>, although handle 0 is
  cached: the cache is read only in the callback of the host's promise. And when handle 0 is
  unloaded between the two calls, the second resolves with the new handle 1.
\<close>

theorem load_twice_counterexample:
  "snd (load (new_service 0) ''Lazy'' ''bundle/lazy.module'' (LoadResolves MyLazyModule)) =
     Resolved (VHandle 0) \<and>
   snd (load (fst (load (new_service 0) ''Lazy'' ''bundle/lazy.module'' (LoadResolves MyLazyModule)))
          ''Lazy'' ''bundle/lazy.module'' LoadThrows) = Resolved VUndefined \<and>
   snd (load (fst (unload (fst (load (new_service 0) ''Lazy'' ''bundle/lazy.module''
          (LoadResolves MyLazyModule))) 0)) ''Lazy'' ''bundle/lazy.module'' (LoadResolves MyLazyModule)) =
     Resolved (VHandle 1)"
proof -
  let ?s1 = "fst (load (new_service 0) ''Lazy'' ''bundle/lazy.module'' (LoadResolves MyLazyModule))"
  let ?k = "moduleURL_of ''Lazy'' ''bundle/lazy.module''"
  from MyLazyModule_instantiates obtain b where
      l: "load (new_service 0) ''Lazy'' ''bundle/lazy.module'' (LoadResolves MyLazyModule) =
       ((new_service 0)\<lparr>console := [(''Loading Module '', ?k)],
          heap := [b], cache := [?k \<mapsto> 0]\<rparr>,
        Resolved (VHandle 0))"
      and b: "url b = ?k"
    by (rule load_fresh)
  have first: "snd (load (new_service 0) ''Lazy'' ''bundle/lazy.module'' (LoadResolves MyLazyModule)) =
     Resolved (VHandle 0)"
    by (simp add: l)
  have throws: "snd (load ?s1 ''Lazy'' ''bundle/lazy.module'' LoadThrows) = Resolved VUndefined"
    by (simp add: load_def)
  have h: "0 < length (heap ?s1)" and u: "url (heap ?s1 ! 0) = ?k" and len: "length (heap ?s1) = 1"
    by (simp_all add: l b)
  have gone: "cache (fst (unload ?s1 0)) ?k = None"
    using unload_clears_key [OF h] u by (simp add: moduleURL_has_hash)
  from load_miss_instantiates [OF gone MyLazyModule_instantiates]
  have again: "snd (load (fst (unload ?s1 0)) ''Lazy'' ''bundle/lazy.module'' (LoadResolves MyLazyModule)) =
     Resolved (VHandle 1)"
    using len by (auto simp: unload_heap_length)
  from first throws again show ?thesis by simp
qed

text \<open>
  Claim C1, as amended. On a running service let a call
  \<^verbatim>\<open>load(moduleName, moduleFilename)\<close> have resolved with a Module Handle \<open>h\<close>, and let
  any calls follow, none of which unloads a handle of that key. Then \<open>h\<close> is a handle of
  the service with the key \<^verbatim>\<open>moduleFilename + "#" + moduleName\<close>, is the cache entry of
  that key, and is left as it was by the calls in between; a second call with the same pair
  to which the host loader delivers a module factory resolves with the same object \<open>h\<close>
  and changes nothing; and whatever the host loader does on the second call, a handle that
  the call resolves with is \<open>h\<close>.
\<close>

theorem load_twice_same_handle:
  assumes "reachable s" "load s n f ho = (s1, Resolved (VHandle h))"
    "keeps_key (moduleURL_of n f) s1 ops"
  shows "h < length (heap s1) \<and> url (heap s1 ! h) = moduleURL_of n f \<and>
         cache s1 (moduleURL_of n f) = Some h \<and>
         cache (run s1 ops) (moduleURL_of n f) = Some h \<and>
         heap (run s1 ops) ! h = heap s1 ! h \<and>
         load (run s1 ops) n f (LoadResolves mf) = (run s1 ops, Resolved (VHandle h)) \<and>
         (load (run s1 ops) n f ho2 = (s2, Resolved (VHandle h2)) \<longrightarrow>
            h2 = h \<and> s2 = run s1 ops)"
proof -
  let ?k = "moduleURL_of n f"
  have "reachable s1"
    using reachable.call [OF assms(1), of "Load n f ho"] assms(2) by simp
  then have w: "wf s1" by (rule reachable_wf)
  have c: "cache s1 ?k = Some h"
    using assms(2) by (rule load_resolved_cached)
  with w have hv: "h < length (heap s1)" "url (heap s1 ! h) = ?k"
    by (simp_all add: wf_def)
  from run_keeps_cached [OF assms(3) c hv]
  have r: "cache (run s1 ops) ?k = Some h" "heap (run s1 ops) ! h = heap s1 ! h"
    by simp_all
  from r(1) have hit: "load (run s1 ops) n f (LoadResolves mf) = (run s1 ops, Resolved (VHandle h))"
    by (rule load_hit)
  have only: "load (run s1 ops) n f ho2 = (s2, Resolved (VHandle h2)) \<longrightarrow>
            h2 = h \<and> s2 = run s1 ops"
    using load_cases [of "run s1 ops" n f ho2] r(1) by auto
  from c hv r hit only show ?thesis by simp
qed

theorem load_twice_same_handle_witness:
  "load (run (fst (load (new_service 0) ''Lazy'' ''bundle/lazy.module'' (LoadResolves MyLazyModule)))
           [LoadJs ''https://cdn/a.js'', Load ''Other'' ''bundle/other.module'' LoadRejects])
        ''Lazy'' ''bundle/lazy.module'' (LoadResolves MyLazyModule) =
     (run (fst (load (new_service 0) ''Lazy'' ''bundle/lazy.module'' (LoadResolves MyLazyModule)))
           [LoadJs ''https://cdn/a.js'', Load ''Other'' ''bundle/other.module'' LoadRejects],
      Resolved (VHandle 0))"
proof -
  let ?s1 = "fst (load (new_service 0) ''Lazy'' ''bundle/lazy.module'' (LoadResolves MyLazyModule))"
  from MyLazyModule_instantiates obtain b where
      l: "load (new_service 0) ''Lazy'' ''bundle/lazy.module'' (LoadResolves MyLazyModule) =
       ((new_service 0)\<lparr>console := [(''Loading Module '', moduleURL_of ''Lazy'' ''bundle/lazy.module'')],
          heap := [b], cache := [moduleURL_of ''Lazy'' ''bundle/lazy.module'' \<mapsto> 0]\<rparr>,
        Resolved (VHandle 0))"
    by (rule load_fresh)
  have first: "load (new_service 0) ''Lazy'' ''bundle/lazy.module'' (LoadResolves MyLazyModule) =
      (?s1, Resolved (VHandle 0))"
    by (simp add: l)
  have keeps: "keeps_key (moduleURL_of ''Lazy'' ''bundle/lazy.module'') ?s1
      [LoadJs ''https://cdn/a.js'', Load ''Other'' ''bundle/other.module'' LoadRejects]"
    by simp
  from load_twice_same_handle [OF reachable.fresh first keeps] show ?thesis by simp
qed

section \<open>create\<close>









section \<open>loadJs: the cache of script elements\<close>

lemma loadJs_cached:
  "loadedLibraries s u = Some a \<Longrightarrow> loadJs s u = (s, Hangs)"
  by (simp add: loadJs_def js_get_def)

lemma loadJs_new:
  assumes "loadedLibraries s u = None" "u \<notin> set object_prototype_keys"
  shows "loadJs s u =
    (s\<lparr>scripts := scripts s @ [\<lparr>script_type = ''text/javascript'', src = u\<rparr>],
       body := body s @ [length (scripts s)]\<rparr>,
     OnLoad (length (scripts s)))"
  using assms by (simp add: loadJs_def js_get_def Let_def)

lemma cdn_not_prototype_key: "''https://cdn/a.js'' \<notin> set object_prototype_keys"
  by (simp add: object_prototype_keys_def)

text \<open>
  Claim C3. The claim says that \<^verbatim>\<open>loadJs(url)\<close>, once an earlier \<^verbatim>\<open>loadJs(url)\<close> has
  completed, returns the cached script element itself. In the code the
  \<^verbatim>\<open>return this.loadedLibraries[url]\<close> stands inside the executor of the new promise, so
  the cached element is dropped: the call returns a fresh promise that never settles. Here
  a fresh service loads \<^verbatim>\<open>https://cdn/a.js\<close>, the load event fires and the promise resolves
  with element 0, which is cached; the repeated call changes nothing and hangs.
\<close>

theorem loadJs_repeat_hangs:
  "snd (loadJs (new_service i) ''https://cdn/a.js'') = OnLoad 0 \<and>
   snd (script_onload (fst (loadJs (new_service i) ''https://cdn/a.js'')) 0) = Resolved 0 \<and>
   loadedLibraries (fst (script_onload (fst (loadJs (new_service i) ''https://cdn/a.js'')) 0))
       ''https://cdn/a.js'' = Some 0 \<and>
   loadJs (fst (script_onload (fst (loadJs (new_service i) ''https://cdn/a.js'')) 0)) ''https://cdn/a.js'' =
     (fst (script_onload (fst (loadJs (new_service i) ''https://cdn/a.js'')) 0), Hangs)"
proof -
  have l: "loadJs (new_service i) ''https://cdn/a.js'' =
    ((new_service i)\<lparr>scripts := [\<lparr>script_type = ''text/javascript'', src = ''https://cdn/a.js''\<rparr>],
       body := [0]\<rparr>, OnLoad 0)"
    using loadJs_new [of "new_service i" "''https://cdn/a.js''"]
    by (simp add: new_service_sel cdn_not_prototype_key)
  have c: "loadedLibraries (fst (script_onload (fst (loadJs (new_service i) ''https://cdn/a.js'')) 0))
       ''https://cdn/a.js'' = Some 0"
    by (simp add: l script_onload_def)
  have r: "snd (script_onload (fst (loadJs (new_service i) ''https://cdn/a.js'')) 0) = Resolved 0"
    by (simp add: l script_onload_def)
  from l c r loadJs_cached [OF c] show ?thesis by simp
qed

text \<open>
  Claim C7 says that two calls \<^verbatim>\<open>loadJs(url)\<close>, the second before the load event of the
  first, append exactly one script element, which both calls refer to. The cache is written
  by the load event only, so the second call finds nothing: for \<^verbatim>\<open>https://cdn/a.js\<close> on a
  fresh service the body ends with two script elements of that source, and the two promises
  wait for different elements.
\<close>

theorem loadJs_same_tick_counterexample:
  "length (scripts_with_src
      (fst (loadJs (fst (loadJs (new_service 0) ''https://cdn/a.js'')) ''https://cdn/a.js''))
      ''https://cdn/a.js'') = 2 \<and>
   length (scripts_with_src
      (fst (loadJs (fst (loadJs (new_service 0) ''https://cdn/a.js'')) ''https://cdn/a.js''))
      ''https://cdn/a.js'') \<noteq> 1 \<and>
   snd (loadJs (new_service 0) ''https://cdn/a.js'') = OnLoad 0 \<and>
   snd (loadJs (fst (loadJs (new_service 0) ''https://cdn/a.js'')) ''https://cdn/a.js'') = OnLoad 1"
proof -
  have l: "loadJs (new_service 0) ''https://cdn/a.js'' =
    ((new_service 0)\<lparr>scripts := [\<lparr>script_type = ''text/javascript'', src = ''https://cdn/a.js''\<rparr>],
       body := [0]\<rparr>, OnLoad 0)"
    using loadJs_new [of "new_service 0" "''https://cdn/a.js''"]
    by (simp add: new_service_sel cdn_not_prototype_key)
  have l2: "loadJs ((new_service 0)\<lparr>scripts := [\<lparr>script_type = ''text/javascript'', src = ''https://cdn/a.js''\<rparr>],
       body := [0]\<rparr>) ''https://cdn/a.js'' =
    ((new_service 0)\<lparr>scripts := [\<lparr>script_type = ''text/javascript'', src = ''https://cdn/a.js''\<rparr>,
                                  \<lparr>script_type = ''text/javascript'', src = ''https://cdn/a.js''\<rparr>],
       body := [0, 1]\<rparr>, OnLoad 1)"
    using loadJs_new [of "(new_service 0)\<lparr>scripts := [\<lparr>script_type = ''text/javascript'', src = ''https://cdn/a.js''\<rparr>],
       body := [0]\<rparr>" "''https://cdn/a.js''"]
    by (simp add: new_service_sel cdn_not_prototype_key)
  show ?thesis
    by (simp add: l l2 scripts_with_src_def)
qed

text \<open>
  Claim C7, as amended. For a URL with nothing under \<^verbatim>\<open>loadedLibraries\<close> (no cached
  element, no member of \<^verbatim>\<open>Object.prototype\<close> of that name), two calls \<^verbatim>\<open>loadJs(url)\<close>
  before any load event append two script elements with that source to the body, one per
  call, and the promise of each call resolves with the element of that call when its load
  event fires.
\<close>

theorem loadJs_same_tick_two_scripts:
  assumes "loadedLibraries s u = None" "u \<notin> set object_prototype_keys"
  shows "snd (loadJs s u) = OnLoad (length (scripts s)) \<and>
         snd (loadJs (fst (loadJs s u)) u) = OnLoad (Suc (length (scripts s))) \<and>
         body (fst (loadJs (fst (loadJs s u)) u)) =
           body s @ [length (scripts s), Suc (length (scripts s))] \<and>
         src (scripts (fst (loadJs (fst (loadJs s u)) u)) ! length (scripts s)) = u \<and>
         src (scripts (fst (loadJs (fst (loadJs s u)) u)) ! Suc (length (scripts s))) = u \<and>
         snd (script_onload (fst (loadJs (fst (loadJs s u)) u)) (length (scripts s))) =
           Resolved (length (scripts s)) \<and>
         snd (script_onload (fst (loadJs (fst (loadJs s u)) u)) (Suc (length (scripts s)))) =
           Resolved (Suc (length (scripts s)))"
proof -
  let ?sc = "\<lparr>script_type = ''text/javascript'', src = u\<rparr>"
  let ?s1 = "s\<lparr>scripts := scripts s @ [?sc], body := body s @ [length (scripts s)]\<rparr>"
  have l1: "loadJs s u = (?s1, OnLoad (length (scripts s)))"
    using assms by (rule loadJs_new)
  have "loadedLibraries ?s1 u = None" using assms(1) by simp
  from loadJs_new [OF this assms(2)]
  have l2: "loadJs ?s1 u =
    (s\<lparr>scripts := scripts s @ [?sc, ?sc],
       body := body s @ [length (scripts s), Suc (length (scripts s))]\<rparr>,
     OnLoad (Suc (length (scripts s))))"
    by simp
  have n1: "(scripts s @ [?sc, ?sc]) ! length (scripts s) = ?sc"
    by (simp add: nth_append)
  have n2: "(scripts s @ [?sc, ?sc]) ! Suc (length (scripts s)) = ?sc"
    by (simp add: nth_append)
  show ?thesis
    by (simp add: l1 l2 n1 n2 script_onload_def)
qed

theorem loadJs_same_tick_two_scripts_witness:
  "body (fst (loadJs (fst (loadJs (new_service 0) ''https://cdn/a.js'')) ''https://cdn/a.js'')) = [0, 1] \<and>
   snd (script_onload (fst (loadJs (fst (loadJs (new_service 0) ''https://cdn/a.js'')) ''https://cdn/a.js'')) 1) =
     Resolved 1"
proof -
  have a: "loadedLibraries (new_service 0) ''https://cdn/a.js'' = None"
    by (simp add: new_service_sel)
  from loadJs_same_tick_two_scripts [OF a cdn_not_prototype_key] show ?thesis
    by (simp add: new_service_sel)
qed

end
